theory Spec2Isabelle
  imports Complex_Main "HOL-Library.Sublist"
begin

section \<open>Simon: the game engine of main.js\<close>

text \<open>
  The engine of main.js is one object literal \<open>state\<close> mutated by a handful of functions,
  most of them \<open>async\<close>. The embedding keeps the object as a record, passes it through
  every function, and cuts each \<open>async\<close> function at its \<open>await\<close>s: the code between
  two awaits runs without interruption on the single JavaScript thread and is one HOL
  function; what is still to run after an await is a pending \<open>task\<close>.

  JavaScript numbers are modelled by exact numbers: counters and indices by \<open>nat\<close>,
  \<open>Date.now()\<close> by \<open>int\<close>, and the fractional quantities (accuracies, durations,
  \<open>performance.now()\<close>) by \<open>real\<close>, that is, IEEE rounding is idealised away.
\<close>

subsection \<open>State\<close>

datatype mode = Idle | Playing | Gameending | Gameover

text \<open>The object \<open>state\<close> (field \<open>round\<close> is named \<open>roundNo\<close> here).\<close>

record gstate =
  mode :: mode
  sequence :: "nat list"
  accepting :: bool
  inputIndex :: nat
  roundNo :: nat
  showing :: bool
  recent :: "nat list"
  recentWindow :: nat
  runInputs :: nat
  runCorrect :: nat
  completedRounds :: nat
  rts :: "int list"
  padEnableTs :: real
  rtWindow :: nat

text \<open>The object literal that initialises \<open>state\<close>.\<close>

definition init_state :: gstate where
  "init_state =
     \<lparr>mode = Idle, sequence = [], accepting = False, inputIndex = 0, roundNo = 0,
      showing = False, recent = [], recentWindow = 20, runInputs = 0, runCorrect = 0,
      completedRounds = 0, rts = [], padEnableTs = 0, rtWindow = 24\<rparr>"

text \<open>
  What the handlers read from outside the engine at the moment they run: the monotonic
  clock \<open>performance.now()\<close>, the wall clock \<open>Date.now()\<close> and the draw of
  \<open>Math.random()\<close>.
\<close>

record world =
  perfNow :: real
  dateNow :: int
  rand :: real

text \<open>
  The controls the handlers read: the strict checkbox (\<open>strictToggle?.checked\<close>, false
  when the element is missing), the text of the name field, and the value of the checked
  tone radio button (\<open>None\<close> when no button is checked).
\<close>

record controls =
  strictChecked :: bool
  nameValue :: string
  toneValue :: "string option"

subsection \<open>Tone presets\<close>

record preset =
  press :: nat
  stepMul :: real

definition PRESETS :: "string \<Rightarrow> preset option" where
  "PRESETS k =
     (if k = ''short'' then Some \<lparr>press = 120, stepMul = 85 / 100\<rparr>
      else if k = ''medium'' then Some \<lparr>press = 150, stepMul = 1\<rparr>
      else if k = ''long'' then Some \<lparr>press = 220, stepMul = 115 / 100\<rparr>
      else None)"

text \<open>\<open>currentPreset\<close>: both \<open>||\<close> fall back to medium.\<close>

definition currentPreset :: "controls \<Rightarrow> preset" where
  "currentPreset ui =
     (let sel = (case toneValue ui of
                   None \<Rightarrow> ''medium''
                 | Some v \<Rightarrow> if v = [] then ''medium'' else v)
      in case PRESETS sel of
           Some p \<Rightarrow> p
         | None \<Rightarrow> \<lparr>press = 150, stepMul = 1\<rparr>)"

subsection \<open>Accuracy window\<close>

text \<open>\<open>recordResult\<close>: push the bit, shift the oldest out when over the window, tally.\<close>

definition recordResult :: "bool \<Rightarrow> gstate \<Rightarrow> gstate" where
  "recordResult ok s =
     (let pushed = recent s @ [if ok then 1 else 0];
          kept = (if length pushed > recentWindow s then tl pushed else pushed)
      in s\<lparr>recent := kept,
           runInputs := runInputs s + 1,
           runCorrect := (if ok then runCorrect s + 1 else runCorrect s)\<rparr>)"

text \<open>\<open>getRecentAccuracy\<close>: \<open>reduce((a,b)=>a+b,0)\<close> is a left fold.\<close>

definition getRecentAccuracy :: "gstate \<Rightarrow> real" where
  "getRecentAccuracy s =
     (if length (recent s) = 0 then 85 / 100
      else real (foldl (+) 0 (recent s)) / real (length (recent s)))"

subsection \<open>Reaction history\<close>

text \<open>
  \<open>ms|0\<close> is ECMAScript's ToInt32: truncate towards zero, then reduce modulo \<open>2^32\<close> into
  the signed 32-bit range.
\<close>

definition toInt32 :: "real \<Rightarrow> int" where
  "toInt32 x =
     (let t = (if x < 0 then \<lceil>x\<rceil> else \<lfloor>x\<rfloor>);
          m = t mod 4294967296
      in if m \<ge> 2147483648 then m - 4294967296 else m)"

definition pushReaction :: "real \<Rightarrow> gstate \<Rightarrow> gstate" where
  "pushReaction ms s =
     (let clamped = max 50 (min 2000 (toInt32 ms));
          pushed = rts s @ [clamped]
      in s\<lparr>rts := (if length pushed > rtWindow s then tl pushed else pushed)\<rparr>)"

subsection \<open>Pacing\<close>

text \<open>
  \<open>stepDuration(round)\<close> reads the recent accuracy and the preset multiplier from the
  globals; \<open>stepDurationFrom\<close> is its body with the two reads as arguments.
\<close>

definition stepDurationFrom :: "nat \<Rightarrow> real \<Rightarrow> real \<Rightarrow> real" where
  "stepDurationFrom rnd acc presetMul =
     (let base = 720; minD = 200; roundFactor = real rnd * 45;
          accBonus = max 0 (acc - 60 / 100) * 380
      in max minD ((base - roundFactor - accBonus) * presetMul))"

definition stepDuration :: "controls \<Rightarrow> gstate \<Rightarrow> nat \<Rightarrow> real" where
  "stepDuration ui s rnd =
     stepDurationFrom rnd (getRecentAccuracy s) (stepMul (currentPreset ui))"

text \<open>\<open>randomStep\<close>: \<open>Math.floor(Math.random()*4)\<close>.\<close>

definition randomStep :: "world \<Rightarrow> nat" where
  "randomStep w = nat \<lfloor>rand w * 4\<rfloor>"

text \<open>\<open>enablePads\<close>: the timestamp is taken only when the pads are switched on.\<close>

definition enablePads :: "bool \<Rightarrow> world \<Rightarrow> gstate \<Rightarrow> gstate" where
  "enablePads on w s =
     s\<lparr>accepting := on, padEnableTs := (if on then perfNow w else padEnableTs s)\<rparr>"

subsection \<open>Leaderboard\<close>

text \<open>A score object \<open>{name, round, acc, strict, time}\<close>.\<close>

record entry =
  e_name :: string
  e_round :: nat
  e_acc :: real
  e_strict :: bool
  e_time :: int

text \<open>
  The persistence layer: whether the list element \<open>lbList\<close> exists, whether the probe
  of localStorage succeeded (\<open>storageOK\<close>), the in-memory fallback \<open>memLB\<close>, and the
  list stored under \<open>LB_KEY\<close>. Stored text is taken to parse to a list of score objects,
  and a write that is attempted succeeds.
\<close>

record board =
  lbPresent :: bool
  storageOK :: bool
  memLB :: "entry list"
  localLB :: "entry list"

definition loadLeaderboard :: "board \<Rightarrow> entry list" where
  "loadLeaderboard b =
     (if \<not> lbPresent b then []
      else if \<not> storageOK b then memLB b
      else localLB b)"

definition saveLeaderboard :: "entry list \<Rightarrow> board \<Rightarrow> board" where
  "saveLeaderboard list b =
     (if \<not> lbPresent b then b
      else let trimmed = take 200 list
           in if \<not> storageOK b then b\<lparr>memLB := trimmed\<rparr>
              else b\<lparr>localLB := trimmed\<rparr>)"

text \<open>
  The comparator handed to \<open>sort\<close>:
  \<open>(a,b) => b.round - a.round || b.acc - a.acc || b.time - a.time\<close>;
  \<open>||\<close> moves on when its left operand is zero.
\<close>

definition scoreCmp :: "entry \<Rightarrow> entry \<Rightarrow> real" where
  "scoreCmp a b =
     (let d1 = real (e_round b) - real (e_round a) in
      if d1 \<noteq> 0 then d1
      else let d2 = e_acc b - e_acc a in
           if d2 \<noteq> 0 then d2
           else real_of_int (e_time b - e_time a))"

text \<open>
  \<open>Array.prototype.sort\<close> is a built-in: ECMAScript requires it to be stable, and for a
  consistent comparator its result is the one stable ordering in which no element is
  followed by one that compares smaller. It is embedded as insertion from the right,
  each element placed in front of the first element it does not compare greater than.
\<close>

fun placeBy :: "('a \<Rightarrow> 'a \<Rightarrow> real) \<Rightarrow> 'a \<Rightarrow> 'a list \<Rightarrow> 'a list" where
  "placeBy cmp x [] = [x]"
| "placeBy cmp x (y # ys) = (if cmp x y \<le> 0 then x # y # ys else y # placeBy cmp x ys)"

definition arraySort :: "('a \<Rightarrow> 'a \<Rightarrow> real) \<Rightarrow> 'a list \<Rightarrow> 'a list" where
  "arraySort cmp xs = foldr (placeBy cmp) xs []"

text \<open>
  \<open>addScore\<close>; \<open>timeOverride ?? Date.now()\<close> takes the clock only when no time is
  passed.
\<close>

definition addScore ::
  "world \<Rightarrow> string \<Rightarrow> nat \<Rightarrow> real \<Rightarrow> bool \<Rightarrow> int option \<Rightarrow> board \<Rightarrow> board" where
  "addScore w name rnd acc strict timeOverride b =
     (if \<not> lbPresent b \<or> name = [] then b
      else let list = loadLeaderboard b @
                        [\<lparr>e_name = name, e_round = rnd, e_acc = acc, e_strict = strict,
                          e_time = (case timeOverride of Some t \<Rightarrow> t | None \<Rightarrow> dateNow w)\<rparr>]
           in saveLeaderboard (arraySort scoreCmp list) b)"

text \<open>
  \<open>String.prototype.trim\<close> on the bytes of the name: white space is removed at both
  ends (the ASCII white-space characters; the name field's text is a byte string here).
\<close>

definition isSpace :: "char \<Rightarrow> bool" where
  "isSpace c = (c \<in> set [CHR '' '', CHR 0x09, CHR 0x0A, CHR 0x0B, CHR 0x0C, CHR 0x0D])"

definition trim :: "string \<Rightarrow> string" where
  "trim v = rev (dropWhile isSpace (rev (dropWhile isSpace v)))"

definition getPlayerName :: "controls \<Rightarrow> string" where
  "getPlayerName ui = trim (nameValue ui)"

subsection \<open>Reset and finalize\<close>

text \<open>\<open>resetToIdleUI\<close>, the assignments to \<open>state\<close>.\<close>

definition resetToIdleUI :: "gstate \<Rightarrow> gstate" where
  "resetToIdleUI s =
     s\<lparr>mode := Idle, sequence := [], accepting := False, inputIndex := 0, roundNo := 0,
       showing := False, recent := [], runInputs := 0, runCorrect := 0,
       completedRounds := 0, rts := []\<rparr>"

text \<open>
  \<open>finalizeRun\<close>: the score is added only when at least one round was completed; the
  mode becomes gameover and sequence, round and input position are cleared either way.
\<close>

definition finalizeRun :: "world \<Rightarrow> controls \<Rightarrow> gstate \<times> board \<Rightarrow> gstate \<times> board" where
  "finalizeRun w ui sb =
     (let s = fst sb; b = snd sb;
          finalRound = completedRounds s;
          finalAcc = (if runInputs s \<noteq> 0 then real (runCorrect s) / real (runInputs s) else 0);
          b' = (if finalRound > 0
                then addScore w (getPlayerName ui) finalRound finalAcc (strictChecked ui)
                       (Some (dateNow w)) b
                else b);
          s1 = enablePads False w (s\<lparr>mode := Gameover\<rparr>)
      in (s1\<lparr>sequence := [], accepting := False, inputIndex := 0, roundNo := 0,
             showing := False\<rparr>, b'))"

subsection \<open>Pending continuations\<close>

text \<open>
  The position of the \<open>for ... of\<close> loop of \<open>showSequence\<close>. The loop iterates the array
  object that \<open>state.sequence\<close> held when the loop started. \<open>Live k\<close>: that object is still
  \<open>state.sequence\<close> and \<open>k\<close> is the next index to read, so an element pushed meanwhile is
  seen. \<open>Dead n\<close>: \<open>state.sequence\<close> has since been assigned a new array, the old object
  can no longer change, and \<open>n\<close> of its elements are still to be read.
\<close>

datatype iter = Live nat | Dead nat

text \<open>
  What an \<open>async\<close> function has left to do once its timer or tone ends:
  \<^item> \<open>StartDelay\<close>: \<open>onMainButton\<close> after 350 ms, then \<open>nextRound()\<close>;
  \<^item> \<open>EndDelay\<close>: \<open>onMainButton\<close> after 120 ms, then \<open>finalizeRun()\<close>;
  \<^item> \<open>RoundDelay\<close>: \<open>nextRound\<close> after \<open>DELAY_BEFORE_SHOW_SEQUENCE\<close>, then push and playback;
  \<^item> \<open>ShowStep it\<close>: \<open>showSequence\<close> inside \<open>lightAndSound\<close>, then the next loop iteration;
  \<^item> \<open>PressDelay i\<close>: \<open>handlePadPress(i)\<close> after the press tone and the 80 ms gap;
  \<^item> \<open>StrictDelay\<close>: the strict mistake branch after 320 ms, then \<open>finalizeRun()\<close>;
  \<^item> \<open>RetryDelay\<close>: the retry branch after 300 ms, then rewind and playback;
  \<^item> \<open>CompleteDelay\<close>: after \<open>DELAY_AFTER_ROUND_COMPLETE\<close>, then \<open>nextRound()\<close>.
\<close>

datatype task =
    StartDelay
  | EndDelay
  | RoundDelay
  | ShowStep iter
  | PressDelay nat
  | StrictDelay
  | RetryDelay
  | CompleteDelay

fun iterNext :: "nat list \<Rightarrow> iter \<Rightarrow> iter option" where
  "iterNext arr (Live k) = (if k < length arr then Some (Live (Suc k)) else None)"
| "iterNext arr (Dead 0) = None"
| "iterNext arr (Dead (Suc n)) = Some (Dead n)"

text \<open>Applied to every pending task when \<open>state.sequence = []\<close> replaces the array \<open>arr\<close>.\<close>

fun detach :: "nat list \<Rightarrow> task \<Rightarrow> task" where
  "detach arr (ShowStep (Live k)) = ShowStep (Dead (length arr - k))"
| "detach arr t = t"

subsection \<open>Playback\<close>

text \<open>
  One turn of the loop of \<open>showSequence\<close>: when the array is exhausted the pads are
  enabled; otherwise the mode is checked before the next element is shown.
\<close>

definition showSequenceLoop :: "world \<Rightarrow> iter \<Rightarrow> gstate \<Rightarrow> gstate \<times> task list" where
  "showSequenceLoop w it s =
     (case iterNext (sequence s) it of
        None \<Rightarrow> (enablePads True w (s\<lparr>showing := False\<rparr>), [])
      | Some it' \<Rightarrow>
          if mode s \<noteq> Playing then (s\<lparr>showing := False\<rparr>, [])
          else (s, [ShowStep it']))"

definition showSequence :: "world \<Rightarrow> gstate \<Rightarrow> gstate \<times> task list" where
  "showSequence w s = showSequenceLoop w (Live 0) (enablePads False w (s\<lparr>showing := True\<rparr>))"

subsection \<open>Round advance\<close>

text \<open>\<open>nextRound\<close> up to its await, and from the await on.\<close>

definition nextRound :: "gstate \<Rightarrow> gstate \<times> task list" where
  "nextRound s =
     (if mode s \<noteq> Playing then (s, [])
      else (s\<lparr>inputIndex := 0, roundNo := roundNo s + 1\<rparr>, [RoundDelay]))"

definition nextRoundResume :: "world \<Rightarrow> gstate \<Rightarrow> gstate \<times> task list" where
  "nextRoundResume w s = showSequence w (s\<lparr>sequence := sequence s @ [randomStep w]\<rparr>)"

subsection \<open>Input handling\<close>

text \<open>\<open>handlePadPress\<close> up to its first await: the guard.\<close>

definition handlePadPress :: "nat \<Rightarrow> gstate \<Rightarrow> gstate \<times> task list" where
  "handlePadPress index s =
     (if mode s \<noteq> Playing \<or> \<not> accepting s then (s, []) else (s, [PressDelay index]))"

text \<open>
  \<open>state.sequence[state.inputIndex]\<close>: \<open>undefined\<close> past the end of the array
  (\<open>None\<close> here), which no pad index equals.
\<close>

definition expectedSignal :: "gstate \<Rightarrow> nat option" where
  "expectedSignal s =
     (if inputIndex s < length (sequence s) then Some (sequence s ! inputIndex s) else None)"

text \<open>\<open>handlePadPress\<close> after the press tone.\<close>

definition handlePadPressResume ::
  "world \<Rightarrow> controls \<Rightarrow> nat \<Rightarrow> gstate \<Rightarrow> gstate \<times> task list" where
  "handlePadPressResume w ui index s =
     (let s1 = (if inputIndex s = 0 \<and> padEnableTs s \<noteq> 0
                then pushReaction (perfNow w - padEnableTs s) s else s);
          expected = expectedSignal s1
      in if Some index \<noteq> expected
         then let s2 = enablePads False w (recordResult False s1)
              in (s2, [if strictChecked ui then StrictDelay else RetryDelay])
         else let s2 = (recordResult True s1)\<lparr>inputIndex := inputIndex s1 + 1\<rparr>
              in if inputIndex s2 = length (sequence s2)
                 then (enablePads False w
                         (s2\<lparr>completedRounds := max (completedRounds s2) (roundNo s2)\<rparr>),
                       [CompleteDelay])
                 else (s2, []))"

text \<open>The retry branch after its pause: \<open>state.inputIndex=0; await showSequence()\<close>.\<close>

definition retryResume :: "world \<Rightarrow> gstate \<Rightarrow> gstate \<times> task list" where
  "retryResume w s = showSequence w (s\<lparr>inputIndex := 0\<rparr>)"

subsection \<open>The event loop\<close>

record config =
  st :: gstate
  ui :: controls
  lb :: board
  pending :: "task list"

definition init_config :: "controls \<Rightarrow> board \<Rightarrow> config" where
  "init_config u b = \<lparr>st = init_state, ui = u, lb = b, pending = []\<rparr>"

definition spawn :: "gstate \<times> task list \<Rightarrow> config \<Rightarrow> config" where
  "spawn r c = c\<lparr>st := fst r, pending := pending c @ snd r\<rparr>"

text \<open>The assignments of the idle branch of \<open>onMainButton\<close>.\<close>

definition startRun :: "gstate \<Rightarrow> gstate" where
  "startRun s =
     s\<lparr>mode := Playing, sequence := [], inputIndex := 0, roundNo := 0, completedRounds := 0,
       recent := [], runInputs := 0, runCorrect := 0, rts := []\<rparr>"

definition onMainButton :: "world \<Rightarrow> config \<Rightarrow> config" where
  "onMainButton w c =
     (case mode (st c) of
        Idle \<Rightarrow>
          if getPlayerName (ui c) = [] then c
          else c\<lparr>st := startRun (st c),
                 pending := map (detach (sequence (st c))) (pending c) @ [StartDelay]\<rparr>
      | Playing \<Rightarrow>
          c\<lparr>st := enablePads False w ((st c)\<lparr>mode := Gameending\<rparr>),
            pending := pending c @ [EndDelay]\<rparr>
      | Gameending \<Rightarrow> c
      | Gameover \<Rightarrow>
          c\<lparr>st := resetToIdleUI (st c),
            pending := map (detach (sequence (st c))) (pending c)\<rparr>)"

definition finalize :: "world \<Rightarrow> config \<Rightarrow> config" where
  "finalize w c =
     (let r = finalizeRun w (ui c) (st c, lb c)
      in c\<lparr>st := fst r, lb := snd r,
           pending := map (detach (sequence (st c))) (pending c)\<rparr>)"

fun resume :: "world \<Rightarrow> task \<Rightarrow> config \<Rightarrow> config" where
  "resume w StartDelay c = spawn (nextRound (st c)) c"
| "resume w EndDelay c = finalize w c"
| "resume w RoundDelay c = spawn (nextRoundResume w (st c)) c"
| "resume w (ShowStep it) c = spawn (showSequenceLoop w it (st c)) c"
| "resume w (PressDelay i) c = spawn (handlePadPressResume w (ui c) i (st c)) c"
| "resume w StrictDelay c = finalize w c"
| "resume w RetryDelay c = spawn (retryResume w (st c)) c"
| "resume w CompleteDelay c = spawn (nextRound (st c)) c"

text \<open>
  What can happen next: a click on the main button (or Enter), a press of pad \<open>i\<close>, the
  \<open>k\<close>-th pending continuation resuming, or the player changing a control. Deadlines are
  not modelled: any pending continuation may resume, which includes every order the
  timers allow.
\<close>

datatype event =
    MainButton
  | PadPress nat
  | Timer nat
  | SetStrict bool
  | SetName string
  | SetTone "string option"

fun step :: "world \<Rightarrow> event \<Rightarrow> config \<Rightarrow> config" where
  "step w MainButton c = onMainButton w c"
| "step w (PadPress i) c = spawn (handlePadPress i (st c)) c"
| "step w (Timer k) c =
     (if k < length (pending c)
      then resume w (pending c ! k) (c\<lparr>pending := take k (pending c) @ drop (Suc k) (pending c)\<rparr>)
      else c)"
| "step w (SetStrict v) c = c\<lparr>ui := (ui c)\<lparr>strictChecked := v\<rparr>\<rparr>"
| "step w (SetName v) c = c\<lparr>ui := (ui c)\<lparr>nameValue := v\<rparr>\<rparr>"
| "step w (SetTone v) c = c\<lparr>ui := (ui c)\<lparr>toneValue := v\<rparr>\<rparr>"

fun run :: "(world \<times> event) list \<Rightarrow> config \<Rightarrow> config" where
  "run [] c = c"
| "run (we # evs) c = run evs (step (fst we) (snd we) c)"


subsection \<open>A sample run\<close>

text \<open>
  Controls, storage and clock readings for concrete runs: the player is Ann, strict mode
  is off, no tone preset is selected (so medium applies), the leaderboard is empty, and
  every draw of \<open>Math.random()\<close> is 0.5, which makes each new signal pad 2.
\<close>

definition demoControls :: controls where
  "demoControls = \<lparr>strictChecked = False, nameValue = ''Ann'', toneValue = None\<rparr>"

definition demoBoard :: board where
  "demoBoard = \<lparr>lbPresent = True, storageOK = True, memLB = [], localLB = []\<rparr>"

definition worldAt :: "real \<Rightarrow> world" where
  "worldAt t = \<lparr>perfNow = t, dateNow = 1700000000000 + \<lfloor>t\<rfloor>, rand = 1 / 2\<rparr>"

text \<open>
  Round 1 up to the player's turn, with the program's own delays: Start at 0 ms,
  \<open>nextRound\<close> at 350, the push and the start of playback at 800, and the end of the
  single playback step (580 ms of tone, 80 ms of gap) at 1460, when the pads are enabled.
\<close>

definition roundOne :: "(world \<times> event) list" where
  "roundOne =
     [(worldAt 0, MainButton), (worldAt 350, Timer 0), (worldAt 800, Timer 0),
      (worldAt 1460, Timer 0)]"

text \<open>
  The state of scenario 3 just before the last input: round 5 is being played, rounds 1
  to 4 took ten correct inputs, one wrong input was retried, and strict mode is now on.
\<close>

definition strictRound5 :: config where
  "strictRound5 =
     \<lparr>st = \<lparr>mode = Playing, sequence = [2, 2, 2, 2, 2], accepting = True, inputIndex = 0,
             roundNo = 5, showing = False, recent = [1, 1, 1, 1, 1, 1, 1, 1, 1, 1, 0],
             recentWindow = 20, runInputs = 11, runCorrect = 10, completedRounds = 4,
             rts = [700, 700, 700, 700, 700], padEnableTs = 20000, rtWindow = 24\<rparr>,
      ui = \<lparr>strictChecked = True, nameValue = ''Ann'', toneValue = None\<rparr>,
      lb = demoBoard, pending = []\<rparr>"

text \<open>
  Two continuations of round 1. In \<open>retryRun\<close> the player presses pad 3 (wrong), the
  round is replayed (675 ms of tone, since the accuracy is now 0), and pad 2 (right)
  completes it. In \<open>endedRun\<close> the player presses pad 2, then clicks End Game while the
  completion pause is still running, and the run is finalized 120 ms later.
\<close>

definition retryRun :: "(world \<times> event) list" where
  "retryRun =
     roundOne @
     [(worldAt 1960, PadPress 3), (worldAt 2190, Timer 0), (worldAt 2490, Timer 0),
      (worldAt 3245, Timer 0), (worldAt 3600, PadPress 2), (worldAt 3830, Timer 0)]"


subsection \<open>The invariant\<close>

text \<open>
  What holds of the engine state at every moment: the input position never passes the
  end of the sequence, and outside gameover no more rounds are completed than started.
\<close>

definition engineInv :: "gstate \<Rightarrow> bool" where
  "engineInv s =
     (inputIndex s \<le> length (sequence s) \<and> (mode s \<noteq> Gameover \<longrightarrow> completedRounds s \<le> roundNo s))"


text \<open>
  \<open>staleFree evs c\<close>: in the run of \<open>evs\<close> from \<open>c\<close>, whenever the main button is clicked in
  mode idle, no round advance of an earlier run is still waiting in its pause.
\<close>

fun staleFree :: "(world \<times> event) list \<Rightarrow> config \<Rightarrow> bool" where
  "staleFree [] c = True"
| "staleFree (we # evs) c =
     ((snd we = MainButton \<and> mode (st c) = Idle \<longrightarrow> RoundDelay \<notin> set (pending c))
      \<and> staleFree evs (step (fst we) (snd we) c))"

text \<open>
  A run in which that is not so: Start, End Game 10 ms after round 1 has begun, the
  finalize 120 ms later, New Game and Start again within the next 40 ms. The append of
  the first run's round advance comes at 800 ms; round 1 of the second run begins at
  870 ms and its own append comes at 1320 ms.
\<close>

definition staleRun :: "(world \<times> event) list" where
  "staleRun =
     [(worldAt 0, MainButton), (worldAt 350, Timer 0), (worldAt 360, MainButton),
      (worldAt 480, Timer 1), (worldAt 500, MainButton), (worldAt 520, MainButton),
      (worldAt 800, Timer 0), (worldAt 870, Timer 0), (worldAt 1320, Timer 1)]"

subsection \<open>The ranking the leaderboard is meant to have\<close>

text \<open>
  The order as the specification words it: \<open>a\<close> ranks before \<open>b\<close> when its round is
  higher, or the rounds are equal and its accuracy is higher, or both are equal and its
  time is not earlier. \<open>sameKeys\<close>: equal on all three keys. \<open>scenario5Board\<close>: a store
  that already holds the first score of scenario 5.
\<close>

definition ranksBefore :: "entry \<Rightarrow> entry \<Rightarrow> bool" where
  "ranksBefore a b =
     (e_round a > e_round b
      \<or> (e_round a = e_round b \<and> e_acc a > e_acc b)
      \<or> (e_round a = e_round b \<and> e_acc a = e_acc b \<and> e_time a \<ge> e_time b))"

definition sameKeys :: "entry \<Rightarrow> entry \<Rightarrow> bool" where
  "sameKeys a b = (e_round a = e_round b \<and> e_acc a = e_acc b \<and> e_time a = e_time b)"

definition scenario5Board :: board where
  "scenario5Board =
     demoBoard\<lparr>localLB := [\<lparr>e_name = ''Ann'', e_round = 5, e_acc = 9 / 10, e_strict = False,
                            e_time = 100\<rparr>]\<rparr>"

section \<open>Properties\<close>

subsection \<open>Evaluating runs\<close>

text \<open>
  The initialisation code at the end of the script, \<open>enablePads(false); resetToIdleUI()\<close>,
  leaves the object literal as it is.
\<close>

lemma init_code: "resetToIdleUI (enablePads False w init_state) = init_state"
  by (simp add: resetToIdleUI_def enablePads_def init_state_def)

lemmas eval_simps =
  init_config_def init_state_def demoControls_def demoBoard_def worldAt_def roundOne_def
  onMainButton_def getPlayerName_def trim_def isSpace_def startRun_def spawn_def
  nextRound_def nextRoundResume_def showSequence_def showSequenceLoop_def enablePads_def
  randomStep_def handlePadPress_def handlePadPressResume_def expectedSignal_def
  pushReaction_def toInt32_def recordResult_def retryResume_def finalize_def finalizeRun_def
  addScore_def loadLeaderboard_def saveLeaderboard_def arraySort_def resetToIdleUI_def Let_def

lemma roundOne_run:
  "run roundOne (init_config demoControls demoBoard) =
     \<lparr>st = \<lparr>mode = Playing, sequence = [2], accepting = True, inputIndex = 0, roundNo = 1,
             showing = False, recent = [], recentWindow = 20, runInputs = 0, runCorrect = 0,
             completedRounds = 0, rts = [], padEnableTs = 1460, rtWindow = 24\<rparr>,
      ui = demoControls, lb = demoBoard, pending = []\<rparr>"
  by (simp add: eval_simps)

lemma run_append: "run (xs @ ys) c = run ys (run xs c)"
  by (induction xs arbitrary: c) auto


subsection \<open>Accuracy window\<close>

lemma foldl_plus_bits:
  "foldl (+) n (map (\<lambda>ok. if ok then 1 else 0) oks) = n + length (filter id oks)"
  by (induction oks arbitrary: n) auto

lemma recordResult_recentWindow [simp]: "recentWindow (recordResult ok s) = recentWindow s"
  by (simp add: recordResult_def Let_def)

lemma recordAll_recentWindow [simp]:
  "recentWindow (foldl (\<lambda>s ok. recordResult ok s) s oks) = recentWindow s"
  by (induction oks arbitrary: s) auto

lemma recordResult_recent:
  "recent (recordResult ok s) =
     (if length (recent s) < recentWindow s then recent s @ [if ok then 1 else 0]
      else tl (recent s @ [if ok then 1 else 0]))"
  by (auto simp: recordResult_def Let_def)

lemma recordAll_fits:
  "length (recent s) + length oks \<le> recentWindow s \<Longrightarrow>
   recent (foldl (\<lambda>s ok. recordResult ok s) s oks) = recent s @ map (\<lambda>ok. if ok then 1 else 0) oks"
proof (induction oks arbitrary: s)
  case Nil
  then show ?case by simp
next
  case (Cons ok oks)
  have r: "recent (recordResult ok s) = recent s @ [if ok then 1 else 0]"
    using Cons.prems by (simp add: recordResult_recent)
  have "length (recent (recordResult ok s)) + length oks \<le> recentWindow (recordResult ok s)"
    using Cons.prems by (simp add: r)
  from Cons.IH [OF this] show ?case by (simp add: r)
qed

text \<open>
  Claim C9. \<open>getRecentAccuracy\<close> returns exactly 0.85 on an empty window; after \<open>k\<close>
  results have been recorded into an empty window, \<open>c\<close> of them correct and
  \<open>1 \<le> k \<le> recentWindow\<close>, it returns \<open>c / k\<close>.
\<close>

theorem getRecentAccuracy_spec:
  "(recent s = [] \<longrightarrow> getRecentAccuracy s = 85 / 100) \<and>
   (recent s = [] \<and> 0 < length oks \<and> length oks \<le> recentWindow s \<longrightarrow>
      getRecentAccuracy (foldl (\<lambda>s ok. recordResult ok s) s oks) =
        real (length (filter id oks)) / real (length oks))"
proof (intro conjI impI)
  assume "recent s = []"
  then show "getRecentAccuracy s = 85 / 100" by (simp add: getRecentAccuracy_def)
next
  assume a: "recent s = [] \<and> 0 < length oks \<and> length oks \<le> recentWindow s"
  then have "recent (foldl (\<lambda>s ok. recordResult ok s) s oks) = map (\<lambda>ok. if ok then 1 else 0) oks"
    using recordAll_fits [of s oks] by simp
  then show "getRecentAccuracy (foldl (\<lambda>s ok. recordResult ok s) s oks) =
        real (length (filter id oks)) / real (length oks)"
    using a by (simp add: getRecentAccuracy_def foldl_plus_bits)
qed

theorem getRecentAccuracy_spec_witness:
  "recent init_state = [] \<and> getRecentAccuracy init_state = 85 / 100 \<and>
   0 < length [True, False, True] \<and> length [True, False, True] \<le> recentWindow init_state \<and>
   getRecentAccuracy (foldl (\<lambda>s ok. recordResult ok s) init_state [True, False, True]) = 2 / 3"
  using getRecentAccuracy_spec [of init_state "[True, False, True]"]
  by (simp add: init_state_def)

lemma recordAll_snoc:
  "foldl (\<lambda>s ok. recordResult ok s) s (oks @ [ok]) = recordResult ok (foldl (\<lambda>s ok. recordResult ok s) s oks)"
  by simp

lemma window_shift:
  fixes xs :: "'a list"
  shows "(if length (drop (length xs - n) xs) < n then drop (length xs - n) xs @ [b]
      else tl (drop (length xs - n) xs @ [b])) = drop (length (xs @ [b]) - n) (xs @ [b])"
proof (cases "length xs < n")
  case True
  then show ?thesis by simp
next
  case False
  show ?thesis
  proof (cases "n = 0")
    case True
    then show ?thesis by simp
  next
    case n: False
    let ?k = "length xs - n"
    have k: "?k < length xs" using False n by simp
    then have ne: "drop ?k xs \<noteq> []" by simp
    have "tl (drop ?k xs @ [b]) = tl (drop ?k xs) @ [b]" using ne by simp
    also have "tl (drop ?k xs) = drop (Suc ?k) xs" by (simp add: drop_Suc tl_drop)
    finally have l: "tl (drop ?k xs @ [b]) = drop (Suc ?k) xs @ [b]" .
    have "length (xs @ [b]) - n = Suc ?k" using False by simp
    then have r: "drop (length (xs @ [b]) - n) (xs @ [b]) = drop (Suc ?k) xs @ [b]"
      using k by simp
    show ?thesis using False l r by simp
  qed
qed

text \<open>
  Claim C10. Whatever results are recorded, the accuracy window never holds more than 20
  bits: it is always the last 20 of everything pushed so far, so an overflowing push
  evicts the oldest bit and no other.
\<close>

theorem recordResult_fifo:
  "recentWindow s = 20 \<and> length (recent s) \<le> 20 \<longrightarrow>
     recent (foldl (\<lambda>s ok. recordResult ok s) s oks) =
       drop (length (recent s @ map (\<lambda>ok. if ok then 1 else 0) oks) - 20)
            (recent s @ map (\<lambda>ok. if ok then 1 else 0) oks)
     \<and> length (recent (foldl (\<lambda>s ok. recordResult ok s) s oks)) \<le> 20
     \<and> recent (recordResult ok s) =
         (if length (recent s) < 20 then recent s @ [if ok then 1 else 0]
          else tl (recent s) @ [if ok then 1 else 0])"
proof (intro impI)
  assume a: "recentWindow s = 20 \<and> length (recent s) \<le> 20"
  have main: "recent (foldl (\<lambda>s ok. recordResult ok s) s oks) =
       drop (length (recent s @ map (\<lambda>ok. if ok then 1 else 0) oks) - 20)
            (recent s @ map (\<lambda>ok. if ok then 1 else 0) oks)"
  proof (induction oks rule: rev_induct)
    case Nil
    then show ?case using a by simp
  next
    case (snoc ok oks)
    let ?all = "recent s @ map (\<lambda>ok. if ok then 1 else 0) oks"
    let ?b = "(if ok then 1 else 0) :: nat"
    have "recent (foldl (\<lambda>s ok. recordResult ok s) s (oks @ [ok])) =
          (if length (drop (length ?all - 20) ?all) < 20 then drop (length ?all - 20) ?all @ [?b]
           else tl (drop (length ?all - 20) ?all @ [?b]))"
      using a snoc.IH by (simp only: recordAll_snoc recordResult_recent recordAll_recentWindow)
    also have "\<dots> = drop (length (?all @ [?b]) - 20) (?all @ [?b])"
      by (rule window_shift)
    finally show ?case by simp
  qed
  have "length (recent (foldl (\<lambda>s ok. recordResult ok s) s oks)) \<le> 20"
    unfolding main by simp
  moreover have "recent (recordResult ok s) =
         (if length (recent s) < 20 then recent s @ [if ok then 1 else 0]
          else tl (recent s) @ [if ok then 1 else 0])"
    using a by (cases "recent s") (auto simp: recordResult_recent)
  ultimately show "recent (foldl (\<lambda>s ok. recordResult ok s) s oks) =
       drop (length (recent s @ map (\<lambda>ok. if ok then 1 else 0) oks) - 20)
            (recent s @ map (\<lambda>ok. if ok then 1 else 0) oks)
     \<and> length (recent (foldl (\<lambda>s ok. recordResult ok s) s oks)) \<le> 20
     \<and> recent (recordResult ok s) =
         (if length (recent s) < 20 then recent s @ [if ok then 1 else 0]
          else tl (recent s) @ [if ok then 1 else 0])"
    using main by blast
qed

theorem recordResult_fifo_witness:
  "recentWindow init_state = 20 \<and> length (recent init_state) \<le> 20 \<and>
   recent (foldl (\<lambda>s ok. recordResult ok s) init_state
      [False, True, True, True, True, True, True, True, True, True, True,
       True, True, True, True, True, True, True, True, True, False]) =
      [1, 1, 1, 1, 1, 1, 1, 1, 1, 1, 1, 1, 1, 1, 1, 1, 1, 1, 1, 0]"
  using recordResult_fifo [of init_state
      "[False, True, True, True, True, True, True, True, True, True, True,
       True, True, True, True, True, True, True, True, True, False]" True]
  by (simp add: init_state_def)

subsection \<open>Pacing\<close>

lemma currentPreset_stepMul: "stepMul (currentPreset u) \<in> {85 / 100, 1, 115 / 100}"
  by (auto simp: currentPreset_def PRESETS_def Let_def split: option.splits if_splits)

lemma stepDurationFrom_eq:
  "stepDurationFrom r a m = max 200 ((720 - 45 * real r - max 0 (a - 60 / 100) * 380) * m)"
  by (simp add: stepDurationFrom_def Let_def mult.commute)

lemma stepDurationFrom_mono_round:
  assumes "0 \<le> m" "r \<le> r'"
  shows "stepDurationFrom r' a m \<le> stepDurationFrom r a m"
proof -
  have "720 - 45 * real r' - max 0 (a - 60 / 100) * 380 \<le> 720 - 45 * real r - max 0 (a - 60 / 100) * 380"
    using assms(2) by simp
  then have "(720 - 45 * real r' - max 0 (a - 60 / 100) * 380) * m
               \<le> (720 - 45 * real r - max 0 (a - 60 / 100) * 380) * m"
    using assms(1) by (rule mult_right_mono)
  then show ?thesis unfolding stepDurationFrom_eq by (rule max.mono [OF order_refl])
qed

lemma stepDurationFrom_mono_acc:
  assumes "0 \<le> m" "a \<le> a'"
  shows "stepDurationFrom r a' m \<le> stepDurationFrom r a m"
proof -
  have "max 0 (a - 60 / 100) \<le> max 0 (a' - 60 / 100)" using assms(2) by simp
  then have "720 - 45 * real r - max 0 (a' - 60 / 100) * 380 \<le> 720 - 45 * real r - max 0 (a - 60 / 100) * 380"
    by simp
  then have "(720 - 45 * real r - max 0 (a' - 60 / 100) * 380) * m
               \<le> (720 - 45 * real r - max 0 (a - 60 / 100) * 380) * m"
    using assms(1) by (rule mult_right_mono)
  then show ?thesis unfolding stepDurationFrom_eq by (rule max.mono [OF order_refl])
qed

lemma foldl_plus_le:
  "\<forall>x \<in> set xs. x \<le> (1::nat) \<Longrightarrow> foldl (+) n xs \<le> n + length xs"
proof (induction xs arbitrary: n)
  case Nil
  then show ?case by simp
next
  case (Cons x xs)
  have "foldl (+) (n + x) xs \<le> (n + x) + length xs" using Cons by simp
  moreover have "x \<le> 1" using Cons.prems by simp
  ultimately show ?case by simp
qed

lemma getRecentAccuracy_range:
  assumes "\<forall>x \<in> set (recent s). x \<le> 1"
  shows "0 \<le> getRecentAccuracy s \<and> getRecentAccuracy s \<le> 1"
proof (cases "recent s = []")
  case True
  then show ?thesis by (simp add: getRecentAccuracy_def)
next
  case False
  have "foldl (+) 0 (recent s) \<le> length (recent s)"
    using foldl_plus_le [OF assms, of 0] by simp
  then have "real (foldl (+) 0 (recent s)) \<le> real (length (recent s))" by simp
  then show ?thesis using False by (simp add: getRecentAccuracy_def)
qed

text \<open>
  Claim C3. For every round \<open>r\<close>, recent accuracy \<open>a\<close> in \<open>[0, 1]\<close> and preset multiplier
  \<open>m\<close> among 0.85, 1.00 and 1.15, the step duration is
  \<open>max(200, (720 - 45 r - max(0, a - 0.60) 380) m)\<close>; it is at least 200, does not
  increase when the round grows, and does not increase when the accuracy grows.
  \<open>stepDuration\<close> itself applies this to the accuracy of the window and to the multiplier
  of the selected preset, which is always one of the three.
\<close>

theorem stepDuration_spec:
  "0 \<le> a \<and> a \<le> 1 \<and> m \<in> {85 / 100, 1, 115 / 100} \<longrightarrow>
     stepDurationFrom r a m = max 200 ((720 - 45 * real r - max 0 (a - 60 / 100) * 380) * m)
     \<and> 200 \<le> stepDurationFrom r a m
     \<and> (\<forall>r'. r \<le> r' \<longrightarrow> stepDurationFrom r' a m \<le> stepDurationFrom r a m)
     \<and> (\<forall>a'. a \<le> a' \<and> a' \<le> 1 \<longrightarrow> stepDurationFrom r a' m \<le> stepDurationFrom r a m)
     \<and> stepDuration u s r = stepDurationFrom r (getRecentAccuracy s) (stepMul (currentPreset u))
     \<and> stepMul (currentPreset u) \<in> {85 / 100, 1, 115 / 100}"
proof (intro impI conjI allI)
  assume h: "0 \<le> a \<and> a \<le> 1 \<and> m \<in> {85 / 100, 1, 115 / 100}"
  then have m: "0 \<le> m" by auto
  show "stepDurationFrom r a m = max 200 ((720 - 45 * real r - max 0 (a - 60 / 100) * 380) * m)"
    by (rule stepDurationFrom_eq)
  show "200 \<le> stepDurationFrom r a m" unfolding stepDurationFrom_eq by simp
  show "stepDurationFrom r' a m \<le> stepDurationFrom r a m" if "r \<le> r'" for r'
    using m that by (rule stepDurationFrom_mono_round)
  show "stepDurationFrom r a' m \<le> stepDurationFrom r a m" if "a \<le> a' \<and> a' \<le> 1" for a'
    using m that by (simp add: stepDurationFrom_mono_acc)
  show "stepDuration u s r = stepDurationFrom r (getRecentAccuracy s) (stepMul (currentPreset u))"
    by (simp add: stepDuration_def)
  show "stepMul (currentPreset u) \<in> {85 / 100, 1, 115 / 100}" by (rule currentPreset_stepMul)
qed

theorem stepDuration_spec_witness:
  "(0::real) \<le> 9 / 10 \<and> (9 / 10 :: real) \<le> 1 \<and> (115 / 100 :: real) \<in> {85 / 100, 1, 115 / 100}
   \<and> stepDurationFrom 3 (9 / 10) (115 / 100) = 54165 / 100
   \<and> stepDurationFrom 4 (9 / 10) (115 / 100) \<le> stepDurationFrom 3 (9 / 10) (115 / 100)
   \<and> stepDurationFrom 3 1 (115 / 100) \<le> stepDurationFrom 3 (9 / 10) (115 / 100)"
proof -
  have h: "(0::real) \<le> 9 / 10 \<and> (9 / 10 :: real) \<le> 1 \<and> (115 / 100 :: real) \<in> {85 / 100, 1, 115 / 100}"
    by simp
  note t = stepDuration_spec [of "9 / 10" "115 / 100" 3, rule_format, OF h]
  have "stepDurationFrom 3 (9 / 10) (115 / 100) = 54165 / 100"
    using t by simp
  moreover have "stepDurationFrom 4 (9 / 10) (115 / 100) \<le> stepDurationFrom 3 (9 / 10) (115 / 100)"
    using t by simp
  moreover have "stepDurationFrom 3 1 (115 / 100) \<le> stepDurationFrom 3 (9 / 10) (115 / 100)"
    using t by simp
  ultimately show ?thesis using h by blast
qed

subsection \<open>Finalize\<close>

text \<open>
  Claim C6. When a run is finalized with \<open>completedRounds = 0\<close>, the leaderboard store
  is left exactly as it was, whatever the strict flag and the other controls are, and the
  mode still becomes gameover; this holds for both continuations that finalize.
\<close>

theorem finalizeRun_no_rounds:
  "completedRounds (st c) = 0 \<longrightarrow>
     lb (finalize w c) = lb c \<and> mode (st (finalize w c)) = Gameover
     \<and> snd (finalizeRun w u (st c, b)) = b \<and> mode (fst (finalizeRun w u (st c, b))) = Gameover
     \<and> resume w EndDelay c = finalize w c \<and> resume w StrictDelay c = finalize w c"
  by (simp add: finalize_def finalizeRun_def Let_def enablePads_def)

theorem finalizeRun_no_rounds_witness:
  "completedRounds (st (run roundOne (init_config demoControls demoBoard))) = 0
   \<and> lb (finalize (worldAt 2000) (run roundOne (init_config demoControls demoBoard))) = demoBoard
   \<and> mode (st (finalize (worldAt 2000) (run roundOne (init_config demoControls demoBoard)))) = Gameover"
  using finalizeRun_no_rounds [of "run roundOne (init_config demoControls demoBoard)" "worldAt 2000"]
  by (simp add: roundOne_run)

subsection \<open>Rejected input\<close>

text \<open>
  Claim C2. A pad press that arrives while the mode is not playing, or while input is not
  accepted, changes nothing at all: neither the state nor the pending continuations. In
  particular, once the last expected input of a round has been handled, acceptance is
  off, so a press arriving after that is dropped.
\<close>

theorem handlePadPress_ignored:
  "(mode (st c) \<noteq> Playing \<or> \<not> accepting (st c) \<longrightarrow> step w (PadPress i) c = c)
   \<and> (expectedSignal (st c) = Some i \<and> Suc (inputIndex (st c)) = length (sequence (st c)) \<longrightarrow>
        \<not> accepting (st (resume w (PressDelay i) c))
        \<and> step w' (PadPress j) (resume w (PressDelay i) c) = resume w (PressDelay i) c)"
proof (intro conjI impI)
  assume "mode (st c) \<noteq> Playing \<or> \<not> accepting (st c)"
  then show "step w (PadPress i) c = c"
    by (auto simp: handlePadPress_def spawn_def)
next
  assume h: "expectedSignal (st c) = Some i \<and> Suc (inputIndex (st c)) = length (sequence (st c))"
  show a: "\<not> accepting (st (resume w (PressDelay i) c))"
    using h
    by (simp add: handlePadPressResume_def spawn_def Let_def expectedSignal_def
        pushReaction_def recordResult_def enablePads_def split: if_splits)
  show "step w' (PadPress j) (resume w (PressDelay i) c) = resume w (PressDelay i) c"
    using a by (simp add: handlePadPress_def spawn_def)
qed

theorem handlePadPress_ignored_witness:
  "mode (st (init_config demoControls demoBoard)) \<noteq> Playing
   \<and> step (worldAt 0) (PadPress 2) (init_config demoControls demoBoard) = init_config demoControls demoBoard
   \<and> expectedSignal (st (run roundOne (init_config demoControls demoBoard))) = Some 2
   \<and> Suc (inputIndex (st (run roundOne (init_config demoControls demoBoard))))
        = length (sequence (st (run roundOne (init_config demoControls demoBoard))))
   \<and> step (worldAt 2200) (PadPress 2)
        (resume (worldAt 2190) (PressDelay 2) (run roundOne (init_config demoControls demoBoard)))
      = resume (worldAt 2190) (PressDelay 2) (run roundOne (init_config demoControls demoBoard))"
proof -
  have a: "mode (st (init_config demoControls demoBoard)) \<noteq> Playing"
    by (simp add: init_config_def init_state_def)
  have b: "expectedSignal (st (run roundOne (init_config demoControls demoBoard))) = Some 2
     \<and> Suc (inputIndex (st (run roundOne (init_config demoControls demoBoard))))
        = length (sequence (st (run roundOne (init_config demoControls demoBoard))))"
    by (simp add: roundOne_run expectedSignal_def)
  from handlePadPress_ignored
         [of "init_config demoControls demoBoard" "worldAt 0" 2]
  have c: "step (worldAt 0) (PadPress 2) (init_config demoControls demoBoard) = init_config demoControls demoBoard"
    using a by blast
  from handlePadPress_ignored
         [of "run roundOne (init_config demoControls demoBoard)" "worldAt 2190" 2 "worldAt 2200" 2]
  have d: "step (worldAt 2200) (PadPress 2)
        (resume (worldAt 2190) (PressDelay 2) (run roundOne (init_config demoControls demoBoard)))
      = resume (worldAt 2190) (PressDelay 2) (run roundOne (init_config demoControls demoBoard))"
    using b by blast
  show ?thesis using a b c d by blast
qed

text \<open>
  The guard is evaluated when a press arrives, not when its continuation resumes. A
  second press that arrives while the last expected press is still sounding is therefore
  accepted, and is handled after the round is complete, as a mistake.
\<close>

lemma duplicate_press_in_flight:
  "run (roundOne @ [(worldAt 1960, PadPress 2), (worldAt 2000, PadPress 2),
                    (worldAt 2190, Timer 0), (worldAt 2230, Timer 0)])
       (init_config demoControls demoBoard) =
     \<lparr>st = \<lparr>mode = Playing, sequence = [2], accepting = False, inputIndex = 1, roundNo = 1,
             showing = False, recent = [1, 0], recentWindow = 20, runInputs = 2, runCorrect = 1,
             completedRounds = 1, rts = [730], padEnableTs = 1460, rtWindow = 24\<rparr>,
      ui = demoControls, lb = demoBoard, pending = [CompleteDelay, RetryDelay]\<rparr>"
  unfolding run_append roundOne_run
  by (simp add: eval_simps)

subsection \<open>Mistakes\<close>

lemma expectedSignal_pushReaction [simp]: "expectedSignal (pushReaction ms s) = expectedSignal s"
  by (simp add: expectedSignal_def pushReaction_def Let_def)

lemma mismatch_branch:
  assumes "expectedSignal s \<noteq> Some i"
  shows "handlePadPressResume w u i s =
     (enablePads False w (recordResult False
        (if inputIndex s = 0 \<and> padEnableTs s \<noteq> 0 then pushReaction (perfNow w - padEnableTs s) s else s)),
      [if strictChecked u then StrictDelay else RetryDelay])"
  using assms by (auto simp: handlePadPressResume_def Let_def)

text \<open>
  Claim C4. A mismatched input with strict mode on records the failure, stops accepting
  input and leaves exactly one continuation, the one that finalizes: there is no retry.
  Finalizing sets the mode to gameover and starts nothing new. If \<open>completedRounds > 0\<close>,
  the store becomes the sorted, saved list with one more entry, whose round is
  \<open>completedRounds\<close> and whose accuracy is \<open>runCorrect / runInputs\<close> (0 when
  \<open>runInputs = 0\<close>), provided the leaderboard element exists and the name is not empty;
  otherwise the store is unchanged.
\<close>

theorem strict_mismatch_finalizes:
  "(strictChecked u \<and> expectedSignal s \<noteq> Some i \<longrightarrow>
       snd (handlePadPressResume w u i s) = [StrictDelay]
     \<and> \<not> accepting (fst (handlePadPressResume w u i s))
     \<and> runInputs (fst (handlePadPressResume w u i s)) = runInputs s + 1
     \<and> runCorrect (fst (handlePadPressResume w u i s)) = runCorrect s
     \<and> completedRounds (fst (handlePadPressResume w u i s)) = completedRounds s)
   \<and> resume w StrictDelay c = finalize w c
   \<and> mode (st (finalize w c)) = Gameover
   \<and> length (pending (finalize w c)) = length (pending c)
   \<and> (0 < completedRounds (st c) \<longrightarrow>
        lb (finalize w c) =
          (if lbPresent (lb c) \<and> getPlayerName (ui c) \<noteq> []
           then saveLeaderboard (arraySort scoreCmp (loadLeaderboard (lb c) @
                  [\<lparr>e_name = getPlayerName (ui c), e_round = completedRounds (st c),
                    e_acc = (if runInputs (st c) = 0 then 0
                             else real (runCorrect (st c)) / real (runInputs (st c))),
                    e_strict = strictChecked (ui c), e_time = dateNow w\<rparr>])) (lb c)
           else lb c))"
proof (intro conjI impI)
  assume h: "strictChecked u \<and> expectedSignal s \<noteq> Some i"
  then have e: "expectedSignal s \<noteq> Some i" by simp
  show "snd (handlePadPressResume w u i s) = [StrictDelay]"
    using h by (simp add: mismatch_branch [OF e])
  show "\<not> accepting (fst (handlePadPressResume w u i s))"
    by (simp add: mismatch_branch [OF e] enablePads_def)
  show "runInputs (fst (handlePadPressResume w u i s)) = runInputs s + 1"
    by (simp add: mismatch_branch [OF e] enablePads_def recordResult_def pushReaction_def Let_def)
  show "runCorrect (fst (handlePadPressResume w u i s)) = runCorrect s"
    by (simp add: mismatch_branch [OF e] enablePads_def recordResult_def pushReaction_def Let_def)
  show "completedRounds (fst (handlePadPressResume w u i s)) = completedRounds s"
    by (simp add: mismatch_branch [OF e] enablePads_def recordResult_def pushReaction_def Let_def)
next
  show "resume w StrictDelay c = finalize w c" by simp
  show "mode (st (finalize w c)) = Gameover"
    by (simp add: finalize_def finalizeRun_def Let_def enablePads_def)
  show "length (pending (finalize w c)) = length (pending c)"
    by (simp add: finalize_def Let_def)
next
  assume "0 < completedRounds (st c)"
  then show "lb (finalize w c) =
          (if lbPresent (lb c) \<and> getPlayerName (ui c) \<noteq> []
           then saveLeaderboard (arraySort scoreCmp (loadLeaderboard (lb c) @
                  [\<lparr>e_name = getPlayerName (ui c), e_round = completedRounds (st c),
                    e_acc = (if runInputs (st c) = 0 then 0
                             else real (runCorrect (st c)) / real (runInputs (st c))),
                    e_strict = strictChecked (ui c), e_time = dateNow w\<rparr>])) (lb c)
           else lb c)"
    by (simp add: finalize_def finalizeRun_def addScore_def Let_def)
qed

lemma strictRound5_press:
  "resume (worldAt 20650) (PressDelay 3) strictRound5 =
     \<lparr>st = \<lparr>mode = Playing, sequence = [2, 2, 2, 2, 2], accepting = False, inputIndex = 0,
             roundNo = 5, showing = False, recent = [1, 1, 1, 1, 1, 1, 1, 1, 1, 1, 0, 0],
             recentWindow = 20, runInputs = 12, runCorrect = 10, completedRounds = 4,
             rts = [700, 700, 700, 700, 700, 650], padEnableTs = 20000, rtWindow = 24\<rparr>,
      ui = \<lparr>strictChecked = True, nameValue = ''Ann'', toneValue = None\<rparr>,
      lb = demoBoard, pending = [StrictDelay]\<rparr>"
  by (simp add: strictRound5_def eval_simps)

theorem strict_mismatch_finalizes_witness:
  "strictChecked (ui strictRound5) \<and> expectedSignal (st strictRound5) \<noteq> Some 3
   \<and> snd (handlePadPressResume (worldAt 20650) (ui strictRound5) 3 (st strictRound5)) = [StrictDelay]
   \<and> 0 < completedRounds (st (resume (worldAt 20650) (PressDelay 3) strictRound5))
   \<and> runInputs (st (resume (worldAt 20650) (PressDelay 3) strictRound5)) = 12
   \<and> runCorrect (st (resume (worldAt 20650) (PressDelay 3) strictRound5)) = 10
   \<and> completedRounds (st (resume (worldAt 20650) (PressDelay 3) strictRound5)) = 4
   \<and> localLB (lb (finalize (worldAt 20970) (resume (worldAt 20650) (PressDelay 3) strictRound5))) =
       [\<lparr>e_name = ''Ann'', e_round = 4, e_acc = 10 / 12, e_strict = True,
         e_time = 1700000020970\<rparr>]"
proof -
  let ?R = "resume (worldAt 20650) (PressDelay 3) strictRound5"
  have h: "strictChecked (ui strictRound5) \<and> expectedSignal (st strictRound5) \<noteq> Some 3"
    by (simp add: strictRound5_def expectedSignal_def)
  have a: "snd (handlePadPressResume (worldAt 20650) (ui strictRound5) 3 (st strictRound5)) = [StrictDelay]"
    using strict_mismatch_finalizes [of "ui strictRound5" "st strictRound5" 3 "worldAt 20650"] h
    by blast
  have p: "0 < completedRounds (st ?R) \<and> runInputs (st ?R) = 12 \<and> runCorrect (st ?R) = 10
             \<and> completedRounds (st ?R) = 4"
    unfolding strictRound5_press by simp
  have "lb (finalize (worldAt 20970) ?R) =
          (if lbPresent (lb ?R) \<and> getPlayerName (ui ?R) \<noteq> []
           then saveLeaderboard (arraySort scoreCmp (loadLeaderboard (lb ?R) @
                  [\<lparr>e_name = getPlayerName (ui ?R), e_round = completedRounds (st ?R),
                    e_acc = (if runInputs (st ?R) = 0 then 0
                             else real (runCorrect (st ?R)) / real (runInputs (st ?R))),
                    e_strict = strictChecked (ui ?R), e_time = dateNow (worldAt 20970)\<rparr>])) (lb ?R)
           else lb ?R)"
    using strict_mismatch_finalizes [of _ _ _ "worldAt 20970" ?R] p by blast
  then have e: "localLB (lb (finalize (worldAt 20970) ?R)) =
       [\<lparr>e_name = ''Ann'', e_round = 4, e_acc = 10 / 12, e_strict = True,
         e_time = 1700000020970\<rparr>]"
    unfolding strictRound5_press
    by (simp add: demoBoard_def getPlayerName_def trim_def isSpace_def
        loadLeaderboard_def saveLeaderboard_def arraySort_def worldAt_def Let_def)
  show ?thesis using h a p e by blast
qed

lemma showSequence_fields:
  "sequence (fst (showSequence w s)) = sequence s"
  "roundNo (fst (showSequence w s)) = roundNo s"
  "completedRounds (fst (showSequence w s)) = completedRounds s"
  "inputIndex (fst (showSequence w s)) = inputIndex s"
  "mode (fst (showSequence w s)) = mode s"
  "recent (fst (showSequence w s)) = recent s"
  by (simp_all add: showSequence_def showSequenceLoop_def enablePads_def split: option.splits)

lemma showSequence_starts:
  assumes "mode s = Playing" "sequence s \<noteq> []"
  shows "showSequence w s = (enablePads False w (s\<lparr>showing := True\<rparr>), [ShowStep (Live 1)])"
  using assms by (simp add: showSequence_def showSequenceLoop_def enablePads_def)

lemma mismatch_fields:
  assumes "expectedSignal s \<noteq> Some i"
  shows "sequence (fst (handlePadPressResume w u i s)) = sequence s"
    and "roundNo (fst (handlePadPressResume w u i s)) = roundNo s"
    and "completedRounds (fst (handlePadPressResume w u i s)) = completedRounds s"
    and "mode (fst (handlePadPressResume w u i s)) = mode s"
    and "recent (fst (handlePadPressResume w u i s)) = recent (recordResult False s)"
    and "runInputs (fst (handlePadPressResume w u i s)) = runInputs s + 1"
    and "runCorrect (fst (handlePadPressResume w u i s)) = runCorrect s"
    and "\<not> accepting (fst (handlePadPressResume w u i s))"
  by (simp_all add: mismatch_branch [OF assms] enablePads_def recordResult_def pushReaction_def Let_def)

text \<open>
  Claim C7. A mismatched input with strict mode off records a failure (the window gets a
  0, \<open>runInputs\<close> grows, \<open>runCorrect\<close> does not), stops accepting input and leaves
  exactly the retry continuation; that one sets \<open>inputIndex\<close> to 0 and, while the mode is
  still playing, starts playback at the first element of the sequence. Round number,
  \<open>completedRounds\<close> and the sequence are the same before the input, after it, and after
  the retry has started.
\<close>

theorem mismatch_retry:
  "\<not> strictChecked u \<and> expectedSignal s \<noteq> Some i \<longrightarrow>
     snd (handlePadPressResume w u i s) = [RetryDelay]
     \<and> recent (fst (handlePadPressResume w u i s)) = recent (recordResult False s)
     \<and> runInputs (fst (handlePadPressResume w u i s)) = runInputs s + 1
     \<and> runCorrect (fst (handlePadPressResume w u i s)) = runCorrect s
     \<and> \<not> accepting (fst (handlePadPressResume w u i s))
     \<and> roundNo (fst (handlePadPressResume w u i s)) = roundNo s
     \<and> completedRounds (fst (handlePadPressResume w u i s)) = completedRounds s
     \<and> sequence (fst (handlePadPressResume w u i s)) = sequence s
     \<and> inputIndex (fst (retryResume w' (fst (handlePadPressResume w u i s)))) = 0
     \<and> roundNo (fst (retryResume w' (fst (handlePadPressResume w u i s)))) = roundNo s
     \<and> completedRounds (fst (retryResume w' (fst (handlePadPressResume w u i s)))) = completedRounds s
     \<and> sequence (fst (retryResume w' (fst (handlePadPressResume w u i s)))) = sequence s
     \<and> (mode s = Playing \<and> sequence s \<noteq> [] \<longrightarrow>
          snd (retryResume w' (fst (handlePadPressResume w u i s))) = [ShowStep (Live 1)]
          \<and> showing (fst (retryResume w' (fst (handlePadPressResume w u i s))))
          \<and> \<not> accepting (fst (retryResume w' (fst (handlePadPressResume w u i s)))))"
proof (intro impI)
  assume h: "\<not> strictChecked u \<and> expectedSignal s \<noteq> Some i"
  then have e: "expectedSignal s \<noteq> Some i" by simp
  let ?s2 = "fst (handlePadPressResume w u i s)"
  have t: "snd (handlePadPressResume w u i s) = [RetryDelay]"
    using h by (simp add: mismatch_branch [OF e])
  have r: "inputIndex (fst (retryResume w' ?s2)) = 0"
      "roundNo (fst (retryResume w' ?s2)) = roundNo s"
      "completedRounds (fst (retryResume w' ?s2)) = completedRounds s"
      "sequence (fst (retryResume w' ?s2)) = sequence s"
    by (simp_all add: retryResume_def showSequence_fields mismatch_fields [OF e])
  have p: "snd (retryResume w' ?s2) = [ShowStep (Live 1)]
          \<and> showing (fst (retryResume w' ?s2)) \<and> \<not> accepting (fst (retryResume w' ?s2))"
    if "mode s = Playing \<and> sequence s \<noteq> []"
  proof -
    have "mode (?s2\<lparr>inputIndex := 0\<rparr>) = Playing" "sequence (?s2\<lparr>inputIndex := 0\<rparr>) \<noteq> []"
      using that by (simp_all add: mismatch_fields [OF e])
    then show ?thesis
      unfolding retryResume_def by (simp add: showSequence_starts enablePads_def)
  qed
  show "snd (handlePadPressResume w u i s) = [RetryDelay]
     \<and> recent ?s2 = recent (recordResult False s)
     \<and> runInputs ?s2 = runInputs s + 1
     \<and> runCorrect ?s2 = runCorrect s
     \<and> \<not> accepting ?s2
     \<and> roundNo ?s2 = roundNo s
     \<and> completedRounds ?s2 = completedRounds s
     \<and> sequence ?s2 = sequence s
     \<and> inputIndex (fst (retryResume w' ?s2)) = 0
     \<and> roundNo (fst (retryResume w' ?s2)) = roundNo s
     \<and> completedRounds (fst (retryResume w' ?s2)) = completedRounds s
     \<and> sequence (fst (retryResume w' ?s2)) = sequence s
     \<and> (mode s = Playing \<and> sequence s \<noteq> [] \<longrightarrow>
          snd (retryResume w' ?s2) = [ShowStep (Live 1)]
          \<and> showing (fst (retryResume w' ?s2))
          \<and> \<not> accepting (fst (retryResume w' ?s2)))"
    using t r p mismatch_fields [OF e] by blast
qed

lemma roundOne_st:
  "st (run roundOne (init_config demoControls demoBoard)) =
     \<lparr>mode = Playing, sequence = [2], accepting = True, inputIndex = 0, roundNo = 1,
             showing = False, recent = [], recentWindow = 20, runInputs = 0, runCorrect = 0,
             completedRounds = 0, rts = [], padEnableTs = 1460, rtWindow = 24\<rparr>"
  by (simp add: roundOne_run)

theorem mismatch_retry_witness:
  "\<not> strictChecked demoControls
   \<and> expectedSignal (st (run roundOne (init_config demoControls demoBoard))) \<noteq> Some 3
   \<and> mode (st (run roundOne (init_config demoControls demoBoard))) = Playing
   \<and> sequence (st (run roundOne (init_config demoControls demoBoard))) \<noteq> []
   \<and> snd (handlePadPressResume (worldAt 2190) demoControls 3
             (st (run roundOne (init_config demoControls demoBoard)))) = [RetryDelay]
   \<and> sequence (fst (retryResume (worldAt 2490) (fst (handlePadPressResume (worldAt 2190) demoControls 3
             (st (run roundOne (init_config demoControls demoBoard))))))) = [2]
   \<and> roundNo (fst (retryResume (worldAt 2490) (fst (handlePadPressResume (worldAt 2190) demoControls 3
             (st (run roundOne (init_config demoControls demoBoard))))))) = 1
   \<and> inputIndex (fst (retryResume (worldAt 2490) (fst (handlePadPressResume (worldAt 2190) demoControls 3
             (st (run roundOne (init_config demoControls demoBoard))))))) = 0
   \<and> snd (retryResume (worldAt 2490) (fst (handlePadPressResume (worldAt 2190) demoControls 3
             (st (run roundOne (init_config demoControls demoBoard)))))) = [ShowStep (Live 1)]"
proof -
  let ?s = "st (run roundOne (init_config demoControls demoBoard))"
  have h: "\<not> strictChecked demoControls \<and> expectedSignal ?s \<noteq> Some 3"
    unfolding roundOne_st by (simp add: expectedSignal_def demoControls_def)
  have g: "mode ?s = Playing \<and> sequence ?s \<noteq> []" "sequence ?s = [2]" "roundNo ?s = 1"
    by (simp_all add: roundOne_st)
  note t = mismatch_retry [of demoControls ?s 3 "worldAt 2190" "worldAt 2490", rule_format, OF h]
  show ?thesis using h g t by simp
qed

subsection \<open>Reaction history\<close>

text \<open>
  What \<open>pushReaction\<close> keeps: every stored sample lies in \<open>[50, 2000]\<close>, the history
  never exceeds 24 samples, and a push at capacity drops the oldest one.
\<close>

lemma pushReaction_bounds:
  assumes "rtWindow s = 24" "length (rts s) \<le> 24" "\<forall>x \<in> set (rts s). 50 \<le> x \<and> x \<le> 2000"
  shows "length (rts (pushReaction ms s)) \<le> 24"
    and "\<forall>x \<in> set (rts (pushReaction ms s)). 50 \<le> x \<and> x \<le> 2000"
    and "rts (pushReaction ms s) =
           (if length (rts s) < 24 then rts s @ [max 50 (min 2000 (toInt32 ms))]
            else tl (rts s) @ [max 50 (min 2000 (toInt32 ms))])"
proof -
  show "length (rts (pushReaction ms s)) \<le> 24"
    using assms(1,2) by (simp add: pushReaction_def Let_def)
  show "rts (pushReaction ms s) =
           (if length (rts s) < 24 then rts s @ [max 50 (min 2000 (toInt32 ms))]
            else tl (rts s) @ [max 50 (min 2000 (toInt32 ms))])"
    using assms(1,2) by (cases "rts s") (simp_all add: pushReaction_def Let_def)
  have "set (tl (rts s)) \<subseteq> set (rts s)" by (cases "rts s") auto
  then show "\<forall>x \<in> set (rts (pushReaction ms s)). 50 \<le> x \<and> x \<le> 2000"
    using assms(3) by (cases "rts s") (auto simp: pushReaction_def Let_def)
qed

text \<open>
  Claim C8. The claim says one reaction sample per round. The code takes a sample
  whenever an input is handled with \<open>inputIndex = 0\<close>, and a retry sets \<open>inputIndex\<close> back
  to 0: in \<open>retryRun\<close> round 1 is completed with two samples in the history, one for the
  wrong first input and one for the first input of the replay.
\<close>

theorem reaction_samples_retry:
  "rts (st (run retryRun (init_config demoControls demoBoard))) = [730, 585]
   \<and> roundNo (st (run retryRun (init_config demoControls demoBoard))) = 1
   \<and> completedRounds (st (run retryRun (init_config demoControls demoBoard))) = 1
   \<and> sequence (st (run retryRun (init_config demoControls demoBoard))) = [2]"
  unfolding retryRun_def run_append roundOne_run
  by (simp add: eval_simps)

subsection \<open>Engine invariants\<close>









lemma engineInv_showSequence: "engineInv s \<Longrightarrow> engineInv (fst (showSequence w s))"
  by (simp add: engineInv_def showSequence_fields)
































text \<open>
  The statement above says nothing of a run that is not free in that sense.
  \<open>nextRound\<close> appends after its pause without looking at the mode again, so the round
  advance of a run that was ended, reset and restarted within that pause appends to the
  sequence of the new run: in \<open>staleRun\<close> round 1 of the second run holds two elements.
\<close>

lemma stale_push:
  "sequence (st (run staleRun (init_config demoControls demoBoard))) = [2, 2]
   \<and> roundNo (st (run staleRun (init_config demoControls demoBoard))) = 1
   \<and> mode (st (run staleRun (init_config demoControls demoBoard))) = Playing
   \<and> \<not> staleFree staleRun (init_config demoControls demoBoard)"
  by (simp add: staleRun_def eval_simps)

subsection \<open>Leaderboard order\<close>

lemma scoreCmp_le: "scoreCmp a b \<le> 0 \<longleftrightarrow> ranksBefore a b"
  by (auto simp: scoreCmp_def ranksBefore_def Let_def)

lemma ranksBefore_total: "ranksBefore a b \<or> ranksBefore b a"
  by (auto simp: ranksBefore_def)

lemma ranksBefore_trans: "ranksBefore a b \<Longrightarrow> ranksBefore b c \<Longrightarrow> ranksBefore a c"
  by (auto simp: ranksBefore_def)

lemma ranksBefore_antisym: "ranksBefore a b \<Longrightarrow> ranksBefore b a \<Longrightarrow> sameKeys a b"
  by (auto simp: ranksBefore_def sameKeys_def)

lemma sameKeys_cmp: "sameKeys k a \<Longrightarrow> sameKeys k b \<Longrightarrow> scoreCmp a b \<le> 0"
  by (simp add: sameKeys_def scoreCmp_def Let_def)

lemma set_placeBy: "set (placeBy cmp x ys) = insert x (set ys)"
  by (induction ys) auto

lemma sorted_placeBy:
  "sorted_wrt ranksBefore ys \<Longrightarrow> sorted_wrt ranksBefore (placeBy scoreCmp x ys)"
proof (induction ys)
  case Nil
  then show ?case by simp
next
  case (Cons y ys)
  show ?case
  proof (cases "scoreCmp x y \<le> 0")
    case True
    then have xy: "ranksBefore x y" by (simp add: scoreCmp_le)
    have "\<forall>z \<in> set ys. ranksBefore x z"
      using Cons.prems xy by (auto intro: ranksBefore_trans)
    then show ?thesis using True xy Cons.prems by simp
  next
    case False
    then have yx: "ranksBefore y x"
      using ranksBefore_total [of x y] by (simp add: scoreCmp_le)
    have "sorted_wrt ranksBefore (placeBy scoreCmp x ys)"
      using Cons by simp
    then show ?thesis using False yx Cons.prems by (simp add: set_placeBy)
  qed
qed

lemma sorted_arraySort: "sorted_wrt ranksBefore (arraySort scoreCmp xs)"
  unfolding arraySort_def by (induction xs) (simp_all add: sorted_placeBy)

lemma filter_placeBy:
  assumes "\<And>a b. P a \<Longrightarrow> P b \<Longrightarrow> cmp a b \<le> 0"
  shows "filter P (placeBy cmp x ys) = (if P x then x # filter P ys else filter P ys)"
proof (induction ys)
  case Nil
  then show ?case by simp
next
  case (Cons y ys)
  show ?case
  proof (cases "cmp x y \<le> 0")
    case True
    then show ?thesis by simp
  next
    case False
    then have "\<not> (P x \<and> P y)" using assms by blast
    then show ?thesis using False Cons by auto
  qed
qed

lemma filter_arraySort:
  assumes "\<And>a b. P a \<Longrightarrow> P b \<Longrightarrow> cmp a b \<le> 0"
  shows "filter P (arraySort cmp xs) = filter P xs"
  unfolding arraySort_def by (induction xs) (simp_all add: filter_placeBy [of P cmp, OF assms])

lemma length_placeBy: "length (placeBy cmp x ys) = Suc (length ys)"
  by (induction ys) auto

lemma length_arraySort: "length (arraySort cmp xs) = length xs"
  unfolding arraySort_def by (induction xs) (simp_all add: length_placeBy)

lemma set_arraySort: "set (arraySort cmp xs) = set xs"
  unfolding arraySort_def by (induction xs) (simp_all add: set_placeBy)

lemma stored_after_addScore:
  assumes "lbPresent b" "name \<noteq> []"
  shows "loadLeaderboard (addScore w name r acc strict t b) =
     take 200 (arraySort scoreCmp (loadLeaderboard b @
        [\<lparr>e_name = name, e_round = r, e_acc = acc, e_strict = strict,
          e_time = (case t of Some x \<Rightarrow> x | None \<Rightarrow> dateNow w)\<rparr>]))"
  using assms by (simp add: addScore_def saveLeaderboard_def loadLeaderboard_def Let_def)

text \<open>
  Claim C5. After \<open>addScore\<close> has inserted a score (the leaderboard element exists, the
  name is not empty), the stored list is the first 200 entries of the sorted list, and
  in it: an entry that comes before another ranks before it; of two entries that differ
  in some key, the one that ranks before the other comes first; and the entries equal
  on all three keys appear in the order they had in the list before sorting, the new
  score last (for the stored list: an initial part of them, because of the cut at 200).
\<close>

theorem addScore_ordering:
  "lbPresent b \<and> name \<noteq> [] \<longrightarrow>
     loadLeaderboard (addScore w name r acc strict t b) =
       take 200 (arraySort scoreCmp (loadLeaderboard b @
          [\<lparr>e_name = name, e_round = r, e_acc = acc, e_strict = strict,
            e_time = (case t of Some x \<Rightarrow> x | None \<Rightarrow> dateNow w)\<rparr>]))
     \<and> (\<forall>i j. i < j \<and> j < length (loadLeaderboard (addScore w name r acc strict t b)) \<longrightarrow>
            ranksBefore (loadLeaderboard (addScore w name r acc strict t b) ! i)
                        (loadLeaderboard (addScore w name r acc strict t b) ! j))
     \<and> (\<forall>i j. i < length (loadLeaderboard (addScore w name r acc strict t b))
              \<and> j < length (loadLeaderboard (addScore w name r acc strict t b))
              \<and> ranksBefore (loadLeaderboard (addScore w name r acc strict t b) ! i)
                            (loadLeaderboard (addScore w name r acc strict t b) ! j)
              \<and> \<not> sameKeys (loadLeaderboard (addScore w name r acc strict t b) ! i)
                            (loadLeaderboard (addScore w name r acc strict t b) ! j)
            \<longrightarrow> i < j)
     \<and> (\<forall>k. filter (sameKeys k) (arraySort scoreCmp (loadLeaderboard b @
                [\<lparr>e_name = name, e_round = r, e_acc = acc, e_strict = strict,
                  e_time = (case t of Some x \<Rightarrow> x | None \<Rightarrow> dateNow w)\<rparr>]))
             = filter (sameKeys k) (loadLeaderboard b @
                [\<lparr>e_name = name, e_round = r, e_acc = acc, e_strict = strict,
                  e_time = (case t of Some x \<Rightarrow> x | None \<Rightarrow> dateNow w)\<rparr>]))
     \<and> (\<forall>k. prefix (filter (sameKeys k) (loadLeaderboard (addScore w name r acc strict t b)))
                    (filter (sameKeys k) (loadLeaderboard b @
                [\<lparr>e_name = name, e_round = r, e_acc = acc, e_strict = strict,
                  e_time = (case t of Some x \<Rightarrow> x | None \<Rightarrow> dateNow w)\<rparr>])))"
proof (intro impI)
  assume h: "lbPresent b \<and> name \<noteq> []"
  let ?new = "\<lparr>e_name = name, e_round = r, e_acc = acc, e_strict = strict,
            e_time = (case t of Some x \<Rightarrow> x | None \<Rightarrow> dateNow w)\<rparr>"
  let ?old = "loadLeaderboard b @ [?new]"
  let ?L = "loadLeaderboard (addScore w name r acc strict t b)"
  have L: "?L = take 200 (arraySort scoreCmp ?old)"
    using h by (simp add: stored_after_addScore)
  have srt: "sorted_wrt ranksBefore ?L"
    unfolding L by (rule sorted_wrt_take [OF sorted_arraySort])
  have fwd: "ranksBefore (?L ! i) (?L ! j)" if "i < j \<and> j < length ?L" for i j
    using srt that by (simp add: sorted_wrt_iff_nth_less)
  have bwd: "i < j"
    if a: "i < length ?L \<and> j < length ?L \<and> ranksBefore (?L ! i) (?L ! j) \<and> \<not> sameKeys (?L ! i) (?L ! j)"
    for i j
  proof (rule ccontr)
    assume "\<not> i < j"
    then consider "j = i" | "j < i" by linarith
    then show False
    proof cases
      case 1
      then show False using a by (simp add: sameKeys_def)
    next
      case 2
      then have "ranksBefore (?L ! j) (?L ! i)" using a fwd [of j i] by simp
      then show False using a ranksBefore_antisym by blast
    qed
  qed
  have stable: "filter (sameKeys k) (arraySort scoreCmp ?old) = filter (sameKeys k) ?old" for k
    by (rule filter_arraySort) (rule sameKeys_cmp)
  have pre: "prefix (filter (sameKeys k) ?L) (filter (sameKeys k) ?old)" for k
  proof -
    have "prefix (filter (sameKeys k) ?L) (filter (sameKeys k) (arraySort scoreCmp ?old))"
      unfolding L by (rule filter_mono_prefix [OF take_is_prefix])
    then show ?thesis by (simp only: stable)
  qed
  show "?L = take 200 (arraySort scoreCmp ?old)
     \<and> (\<forall>i j. i < j \<and> j < length ?L \<longrightarrow> ranksBefore (?L ! i) (?L ! j))
     \<and> (\<forall>i j. i < length ?L \<and> j < length ?L \<and> ranksBefore (?L ! i) (?L ! j)
              \<and> \<not> sameKeys (?L ! i) (?L ! j) \<longrightarrow> i < j)
     \<and> (\<forall>k. filter (sameKeys k) (arraySort scoreCmp ?old) = filter (sameKeys k) ?old)
     \<and> (\<forall>k. prefix (filter (sameKeys k) ?L) (filter (sameKeys k) ?old))"
    using L fwd bwd stable pre by blast
qed


lemma scenario5_stored:
  "loadLeaderboard (addScore (worldAt 0) ''Bea'' 5 (9 / 10) False (Some 200) scenario5Board) =
     [\<lparr>e_name = ''Bea'', e_round = 5, e_acc = 9 / 10, e_strict = False, e_time = 200\<rparr>,
      \<lparr>e_name = ''Ann'', e_round = 5, e_acc = 9 / 10, e_strict = False, e_time = 100\<rparr>]"
  by (simp add: scenario5Board_def demoBoard_def addScore_def loadLeaderboard_def
      saveLeaderboard_def arraySort_def scoreCmp_def Let_def)

theorem addScore_ordering_witness:
  "lbPresent scenario5Board \<and> ''Bea'' \<noteq> []
   \<and> loadLeaderboard (addScore (worldAt 0) ''Bea'' 5 (9 / 10) False (Some 200) scenario5Board) =
     [\<lparr>e_name = ''Bea'', e_round = 5, e_acc = 9 / 10, e_strict = False, e_time = 200\<rparr>,
      \<lparr>e_name = ''Ann'', e_round = 5, e_acc = 9 / 10, e_strict = False, e_time = 100\<rparr>]
   \<and> (0::nat) < 1
   \<and> 1 < length (loadLeaderboard (addScore (worldAt 0) ''Bea'' 5 (9 / 10) False (Some 200) scenario5Board))
   \<and> ranksBefore
       (loadLeaderboard (addScore (worldAt 0) ''Bea'' 5 (9 / 10) False (Some 200) scenario5Board) ! 0)
       (loadLeaderboard (addScore (worldAt 0) ''Bea'' 5 (9 / 10) False (Some 200) scenario5Board) ! 1)
   \<and> \<not> sameKeys
       (loadLeaderboard (addScore (worldAt 0) ''Bea'' 5 (9 / 10) False (Some 200) scenario5Board) ! 0)
       (loadLeaderboard (addScore (worldAt 0) ''Bea'' 5 (9 / 10) False (Some 200) scenario5Board) ! 1)"
proof -
  let ?L = "loadLeaderboard (addScore (worldAt 0) ''Bea'' 5 (9 / 10) False (Some 200) scenario5Board)"
  have h: "lbPresent scenario5Board \<and> ''Bea'' \<noteq> []"
    by (simp add: scenario5Board_def demoBoard_def)
  have l: "(0::nat) < 1 \<and> 1 < length ?L" unfolding scenario5_stored by simp
  have n: "\<not> sameKeys (?L ! 0) (?L ! 1)" unfolding scenario5_stored by (simp add: sameKeys_def)
  note t = addScore_ordering [of scenario5Board "''Bea''" "worldAt 0" 5 "9 / 10" False "Some 200",
      rule_format, OF h]
  have "\<forall>i j. i < j \<and> j < length ?L \<longrightarrow> ranksBefore (?L ! i) (?L ! j)"
    using t by blast
  then have r: "ranksBefore (?L ! 0) (?L ! 1)" using l by blast
  show ?thesis using h l n r scenario5_stored by blast
qed

end
